theory Spec2Isabelle
  imports Complex_Main
begin

section \<open>Python values and text helpers\<close>

text \<open>
  Python strings are modelled as \<open>string\<close>; one \<open>char\<close> of the model stands for one
  character of the Python string. The program only ever inspects the characters
  \<open>.\<close>, \<open>@\<close>, \<open>:\<close> and the base64 alphabet, all of them ASCII.
\<close>

definition digit_char :: "nat \<Rightarrow> char" where
  "digit_char d = ''0123456789'' ! d"

definition digit_val :: "char \<Rightarrow> nat" where
  "digit_val c = of_char c - 48"

definition is_digit :: "char \<Rightarrow> bool" where
  "is_digit c = (48 \<le> (of_char c :: nat) \<and> (of_char c :: nat) \<le> 57)"

text \<open>\<open>str(n)\<close> for a non-negative Python int: its decimal digits, no leading zero.\<close>

fun str_nat :: "nat \<Rightarrow> string" where
  "str_nat n = (if n < 10 then [digit_char n] else str_nat (n div 10) @ [digit_char (n mod 10)])"

declare str_nat.simps [simp del]

text \<open>Left padding with \<open>0\<close> up to a minimal width.\<close>

definition zfill :: "nat \<Rightarrow> string \<Rightarrow> string" where
  "zfill w ds = replicate (w - length ds) (CHR ''0'') @ ds"

text \<open>
  The format specification \<open>02\<close> of an f-string applied to an int: sign-aware zero
  padding to a total width of two, so a negative number keeps its sign and its digits
  are padded to width one.
\<close>

definition format_02 :: "int \<Rightarrow> string" where
  "format_02 i = (if i < 0 then CHR ''-'' # zfill 1 (str_nat (nat (- i)))
                  else zfill 2 (str_nat (nat i)))"

text \<open>\<open>s.split(sep)\<close> for a one-character separator: every occurrence splits.\<close>

fun split_on :: "'a \<Rightarrow> 'a list \<Rightarrow> 'a list list" where
  "split_on sep [] = [[]]"
| "split_on sep (c # cs) =
     (if c = sep then [] # split_on sep cs
      else (case split_on sep cs of [] \<Rightarrow> [[c]] | p # ps \<Rightarrow> (c # p) # ps))"

text \<open>The reading of a decimal numeral, used to state what a formatted string denotes.\<close>

definition dec_val :: "string \<Rightarrow> nat" where
  "dec_val ds = foldl (\<lambda>acc c. 10 * acc + digit_val c) 0 ds"

section \<open>Exceptions and JSON values\<close>

text \<open>
  A value of \<open>py_error\<close> stands for a raised exception that is an instance of
  \<open>Exception\<close>, which is what every \<open>except\<close> clause of the program but one catches.
  \<open>ClientError\<close> covers whatever an HTTP attempt raises (connection failure, timeout,
  \<open>raise_for_status\<close>, an undecodable body).
\<close>

datatype py_error =
    TypeError | ValueError | AttributeError | OverflowError | OSError
  | FileNotFoundError | UnicodeError | BinasciiError | JSONDecodeError | ClientError

text \<open>
  What \<open>json.loads\<close> and \<open>resp.json()\<close> return: \<open>None\<close>, a bool, an int, a float, a
  str, a list or a dict with string keys. \<open>JNull\<close> is Python's \<open>None\<close>. A dict is an
  association list read with \<open>map_of\<close>.
\<close>

datatype pyfloat = Finite rat | PosInf | NegInf | NaN

datatype json =
    JNull | JBool bool | JInt int | JFloat pyfloat | JStr string
  | JArr "json list" | JObj "(string \<times> json) list"

text \<open>Truth value testing, as \<open>if x\<close> and \<open>not x\<close> do it.\<close>

fun truthy :: "json \<Rightarrow> bool" where
  "truthy JNull = False"
| "truthy (JBool b) = b"
| "truthy (JInt i) = (i \<noteq> 0)"
| "truthy (JFloat f) = (f \<noteq> Finite 0)"
| "truthy (JStr s) = (s \<noteq> [])"
| "truthy (JArr xs) = (xs \<noteq> [])"
| "truthy (JObj kvs) = (kvs \<noteq> [])"

text \<open>\<open>d.get(k)\<close> and \<open>d.get(k, default)\<close> on a dict.\<close>

definition dict_get_default :: "(string \<times> json) list \<Rightarrow> string \<Rightarrow> json \<Rightarrow> json" where
  "dict_get_default kvs k dflt = (case map_of kvs k of None \<Rightarrow> dflt | Some v \<Rightarrow> v)"

definition dict_get :: "(string \<times> json) list \<Rightarrow> string \<Rightarrow> json" where
  "dict_get kvs k = dict_get_default kvs k JNull"

text \<open>
  The library functions whose result the program only passes on are parameters of the
  model: UTF-8 decoding of bytes, \<open>json.loads\<close>, \<open>datetime.strptime\<close> with the format
  \<^verbatim>\<open>%Y-%m-%dT%H:%M:%S.%fZ\<close> (its result in microseconds since the epoch, UTC), the
  rendering of a time in Moscow time (\<open>astimezone\<close> and \<open>strftime\<close>, which raises
  where the shifted date leaves the range of \<open>datetime\<close>), and the conversion of a float
  timestamp to microseconds.
\<close>

type_synonym byte = nat

record pylib =
  utf8_decode :: "byte list \<Rightarrow> py_error + string"
  json_loads :: "string \<Rightarrow> py_error + json"
  strptime :: "string \<Rightarrow> py_error + int"
  msk_string :: "int \<Rightarrow> py_error + string"
  float_timestamp :: "pyfloat \<Rightarrow> py_error + int"

section \<open>base64.urlsafe_b64decode\<close>

definition b64_alphabet :: string where
  "b64_alphabet = ''ABCDEFGHIJKLMNOPQRSTUVWXYZabcdefghijklmnopqrstuvwxyz0123456789+/''"

fun index_of :: "'a \<Rightarrow> 'a list \<Rightarrow> nat option" where
  "index_of x [] = None"
| "index_of x (y # ys) =
     (if x = y then Some 0 else (case index_of x ys of None \<Rightarrow> None | Some i \<Rightarrow> Some (Suc i)))"

text \<open>The decoding table of \<open>binascii\<close>: the 6-bit value of a character of the alphabet.\<close>

definition table_a2b_base64 :: "char \<Rightarrow> nat option" where
  "table_a2b_base64 c = index_of c b64_alphabet"

text \<open>
  \<open>binascii.a2b_base64\<close> in its default, lenient mode. The loop carries the position in
  the current group of four (\<open>quad_pos\<close>), the bits left over (\<open>leftchar\<close>), the number of
  padding characters seen (\<open>pads\<close>) and the bytes written. Characters outside the
  alphabet are dropped; a padding sequence that completes a group ends the decoding; a
  group left open at the end of the input is an error. Bytes are numbers below 256: a
  shift to the left is a multiplication, one to the right a division, and the bitwise
  or of the C code is an addition here, its operands sharing no bit.
\<close>

fun a2b_loop :: "nat \<Rightarrow> byte \<Rightarrow> nat \<Rightarrow> byte list \<Rightarrow> string \<Rightarrow> py_error + byte list" where
  "a2b_loop quad_pos leftchar pads out [] =
     (if quad_pos \<noteq> 0 then Inl BinasciiError else Inr out)"
| "a2b_loop quad_pos leftchar pads out (ch # rest) =
     (if ch = CHR ''='' then
        (if 2 \<le> quad_pos then
           (if 4 \<le> quad_pos + (pads + 1) then Inr out
            else a2b_loop quad_pos leftchar (pads + 1) out rest)
         else a2b_loop quad_pos leftchar pads out rest)
      else
        (case table_a2b_base64 ch of
           None \<Rightarrow> a2b_loop quad_pos leftchar pads out rest
         | Some this_ch \<Rightarrow>
            (if quad_pos = 0 then a2b_loop 1 this_ch 0 out rest
             else if quad_pos = 1 then
               a2b_loop 2 (this_ch mod 16) 0
                 (out @ [(leftchar * 4 + this_ch div 16) mod 256]) rest
             else if quad_pos = 2 then
               a2b_loop 3 (this_ch mod 4) 0
                 (out @ [(leftchar * 16 + this_ch div 4) mod 256]) rest
             else
               a2b_loop 0 0 0 (out @ [(leftchar * 64 + this_ch) mod 256]) rest)))"

definition a2b_base64 :: "string \<Rightarrow> py_error + byte list" where
  "a2b_base64 s = a2b_loop 0 0 0 [] s"

text \<open>
  \<open>urlsafe_b64decode\<close> of a str: the string must be ASCII (\<open>ValueError\<close> otherwise),
  \<open>-\<close> and \<open>_\<close> are translated to \<open>+\<close> and \<open>/\<close>, and the result is decoded.
\<close>

definition urlsafe_translate :: "char \<Rightarrow> char" where
  "urlsafe_translate c = (if c = CHR ''-'' then CHR ''+'' else if c = CHR ''_'' then CHR ''/'' else c)"

definition urlsafe_b64decode :: "string \<Rightarrow> py_error + byte list" where
  "urlsafe_b64decode s =
     (if \<exists>c \<in> set s. 128 \<le> (of_char c :: nat) then Inl ValueError
      else a2b_base64 (map urlsafe_translate s))"

section \<open>extract_jwt_data\<close>

text \<open>The body of the \<open>try\<close> block: every failing step raises.\<close>

definition extract_jwt_data_try :: "pylib \<Rightarrow> string \<Rightarrow> py_error + json \<times> json \<times> json" where
  "extract_jwt_data_try lib entry =
     (let parts = split_on (CHR ''.'') entry in
      if length parts \<noteq> 3 then Inr (JNull, JNull, JNull)
      else
        let payload_enc = parts ! 1 in
        case urlsafe_b64decode (payload_enc @ ''=='') of
          Inl e \<Rightarrow> Inl e
        | Inr decoded_bytes \<Rightarrow>
            (case utf8_decode lib decoded_bytes of
               Inl e \<Rightarrow> Inl e
             | Inr payload_str \<Rightarrow>
                 (case json_loads lib payload_str of
                    Inl e \<Rightarrow> Inl e
                  | Inr (JObj kvs) \<Rightarrow>
                      Inr (dict_get kvs ''email'', dict_get kvs ''sub'', dict_get kvs ''exp'')
                  | Inr _ \<Rightarrow> Inl AttributeError)))"

text \<open>
  The function itself: \<open>except Exception\<close> turns every exception of the body into the
  triple of \<open>None\<close>s.
\<close>

definition extract_jwt_data :: "pylib \<Rightarrow> string \<Rightarrow> py_error + json \<times> json \<times> json" where
  "extract_jwt_data lib entry =
     (case extract_jwt_data_try lib entry of
        Inl e \<Rightarrow> Inr (JNull, JNull, JNull)
      | Inr r \<Rightarrow> Inr r)"

text \<open>
  What the claims call URL-safe base64: the encoding of RFC 4648 with the alphabet that
  ends in \<open>-\<close> and \<open>_\<close>, three bytes to four characters, the last group padded with
  \<open>=\<close>; and the same with the padding stripped, as tokens carry it.
\<close>

definition urlsafe_alphabet :: string where
  "urlsafe_alphabet = ''ABCDEFGHIJKLMNOPQRSTUVWXYZabcdefghijklmnopqrstuvwxyz0123456789-_''"

definition b64_digit :: "nat \<Rightarrow> char" where
  "b64_digit d = urlsafe_alphabet ! d"

fun urlsafe_b64encode_nopad :: "byte list \<Rightarrow> string" where
  "urlsafe_b64encode_nopad [] = []"
| "urlsafe_b64encode_nopad [a] = [b64_digit (a div 4), b64_digit (a mod 4 * 16)]"
| "urlsafe_b64encode_nopad [a, b] =
     [b64_digit (a div 4), b64_digit (a mod 4 * 16 + b div 16), b64_digit (b mod 16 * 4)]"
| "urlsafe_b64encode_nopad (a # b # c # rest) =
     [b64_digit (a div 4), b64_digit (a mod 4 * 16 + b div 16),
      b64_digit (b mod 16 * 4 + c div 64), b64_digit (c mod 64)]
     @ urlsafe_b64encode_nopad rest"

definition urlsafe_b64encode :: "byte list \<Rightarrow> string" where
  "urlsafe_b64encode bs =
     urlsafe_b64encode_nopad bs @ replicate ((3 - length bs mod 3) mod 3) (CHR ''='')"


section \<open>format_seconds\<close>

text \<open>
  \<^verbatim>\<open>h, remainder = divmod(sec, 3600); m, s = divmod(remainder, 60)\<close>,
  then \<^verbatim>\<open>f"{h:02}:{m:02}:{s:02}"\<close>. Python's \<open>divmod\<close> on ints is floor division,
  as \<open>div\<close> and \<open>mod\<close> on \<open>int\<close> are.
\<close>

definition format_seconds :: "int \<Rightarrow> string" where
  "format_seconds sec =
     (let h = sec div 3600; remainder = sec mod 3600;
          m = remainder div 60; s = remainder mod 60
      in format_02 h @ '':'' @ format_02 m @ '':'' @ format_02 s)"

section \<open>The clock, the network and the log\<close>

text \<open>
  The three HTTP requests of the program. The token and the user id are whatever values
  the caller holds; both are only formatted into the header and the URL.
\<close>

datatype request = SignIn string string | GetUser json | Earn json json

text \<open>One constructor for each message the program logs.\<close>

datatype logmsg =
    FileMissing | TotalAccounts nat | AccountHeader string
  | TokenExpired | TokenActive string
  | UserInfoFailed | Balance json
  | CheckinOk json | CheckinNotDone | RecheckinOk json | RecheckinFailed
  | AlreadyDone string | InvalidFormat string | AllProcessed | ErrorMsg py_error

datatype event = Log logmsg | Http request | Sleep nat | Banner | WaitDisplay string

text \<open>
  The world the program runs in: the clock in microseconds since the epoch, the number of
  HTTP calls made so far, the remote side (the time the \<open>n\<close>-th call takes, in
  microseconds, and what it yields: a raised exception or the decoded JSON body), the
  result of reading \<open>accounts.txt\<close>, and the trace of what the program did.
\<close>

record world =
  clock :: int
  calls :: nat
  server :: "nat \<Rightarrow> request \<Rightarrow> nat \<times> (py_error + json)"
  accounts_file :: "py_error + string list"
  trace :: "event list"

definition styled_log :: "logmsg \<Rightarrow> world \<Rightarrow> world" where
  "styled_log m w = w\<lparr>trace := trace w @ [Log m]\<rparr>"

definition asyncio_sleep :: "nat \<Rightarrow> world \<Rightarrow> world" where
  "asyncio_sleep n w = w\<lparr>clock := clock w + int n * 1000000, trace := trace w @ [Sleep n]\<rparr>"

text \<open>
  One attempt: open a session, send the request, \<open>raise_for_status\<close>, decode the body.
\<close>

definition http_call :: "request \<Rightarrow> world \<Rightarrow> (py_error + json) \<times> world" where
  "http_call rq w =
     (case server w (calls w) rq of
        (elapsed, reply) \<Rightarrow>
          (reply, w\<lparr>clock := clock w + int elapsed, calls := Suc (calls w),
                     trace := trace w @ [Http rq]\<rparr>))"

text \<open>\<open>int(time.time())\<close>: the seconds of the clock, truncated towards zero.\<close>

definition time_int :: "world \<Rightarrow> int" where
  "time_int w = (if 0 \<le> clock w then clock w div 1000000 else - ((- clock w) div 1000000))"

section \<open>The network operations\<close>

text \<open>
  What the body of the \<open>try\<close> in \<open>attempt_email_signin\<close> makes of an attempt:
  \<open>res.get("accessToken")\<close> raises when the body is not a dict.
\<close>

fun signin_reply :: "py_error + json \<Rightarrow> py_error + json" where
  "signin_reply (Inl e) = Inl e"
| "signin_reply (Inr (JObj res)) = Inr (dict_get res ''accessToken'')"
| "signin_reply (Inr _) = Inl AttributeError"

text \<open>
  \<^verbatim>\<open>for i in range(attempts)\<close>: a successful attempt returns, a failed one sleeps three
  seconds unless it was the last; after the loop the result is \<open>None\<close>.
\<close>

function attempt_email_signin_from ::
  "nat \<Rightarrow> string \<Rightarrow> string \<Rightarrow> nat \<Rightarrow> world \<Rightarrow> (py_error + json) \<times> world" where
  "attempt_email_signin_from i email password attempts w =
     (if i < attempts then
        (case http_call (SignIn email password) w of
           (reply, w1) \<Rightarrow>
             (case signin_reply reply of
                Inr token \<Rightarrow> (Inr token, w1)
              | Inl e \<Rightarrow>
                  attempt_email_signin_from (Suc i) email password attempts
                    (if i < attempts - 1 then asyncio_sleep 3 w1 else w1)))
      else (Inr JNull, w))"
  by pat_completeness auto
termination
  by (relation "measure (\<lambda>(i, email, password, attempts, w). attempts - i)") auto

declare attempt_email_signin_from.simps [simp del]

definition attempt_email_signin ::
  "string \<Rightarrow> string \<Rightarrow> nat \<Rightarrow> world \<Rightarrow> (py_error + json) \<times> world" where
  "attempt_email_signin email password attempts w =
     attempt_email_signin_from 0 email password attempts w"

text \<open>
  The loop shared by \<open>request_user_info\<close> and \<open>perform_checkin\<close>, which differ in the
  URL only: \<^verbatim>\<open>for _ in range(5)\<close>, a successful attempt returns the body, every
  failed one sleeps three seconds; after the loop the result is the empty dict. The
  number is the count of iterations still to run.
\<close>

fun get_json_retrying :: "request \<Rightarrow> nat \<Rightarrow> world \<Rightarrow> (py_error + json) \<times> world" where
  "get_json_retrying rq 0 w = (Inr (JObj []), w)"
| "get_json_retrying rq (Suc n) w =
     (case http_call rq w of
        (Inr body, w1) \<Rightarrow> (Inr body, w1)
      | (Inl e, w1) \<Rightarrow> get_json_retrying rq n (asyncio_sleep 3 w1))"

definition request_user_info :: "json \<Rightarrow> world \<Rightarrow> (py_error + json) \<times> world" where
  "request_user_info token w = get_json_retrying (GetUser token) 5 w"

definition perform_checkin :: "json \<Rightarrow> json \<Rightarrow> world \<Rightarrow> (py_error + json) \<times> world" where
  "perform_checkin token user_id w = get_json_retrying (Earn token user_id) 5 w"

section \<open>partial_hide and check_token_status\<close>

text \<open>\<open>s.split(sep, 1)\<close>: split at the first occurrence only.\<close>

definition split_once :: "'a \<Rightarrow> 'a list \<Rightarrow> 'a list list" where
  "split_once sep s =
     (if sep \<in> set s
      then [takeWhile (\<lambda>c. c \<noteq> sep) s, tl (dropWhile (\<lambda>c. c \<noteq> sep) s)]
      else [s])"

text \<open>The slice \<open>s[-n:]\<close> for \<open>n > 0\<close>: the last \<open>n\<close> items, all of them when there are fewer.\<close>

definition last_n :: "nat \<Rightarrow> 'a list \<Rightarrow> 'a list" where
  "last_n n s = drop (length s - n) s"

definition partial_hide_str :: "string \<Rightarrow> string" where
  "partial_hide_str text =
     (if CHR ''@'' \<in> set text then
        (let local = takeWhile (\<lambda>c. c \<noteq> CHR ''@'') text;
             domain = tl (dropWhile (\<lambda>c. c \<noteq> CHR ''@'') text)
         in take 3 local @ ''***'' @ last_n 3 local @ ''@'' @ domain)
      else take 4 text @ ''*****'' @ last_n 4 text)"

text \<open>
  \<open>partial_hide\<close> applied to a value of a decoded payload. Only a str can be masked:
  \<open>"@" in text\<close> raises \<open>TypeError\<close> on a number, a bool and \<open>None\<close>; a list or a dict
  passes that test and fails at \<open>text.split\<close> or at the slice.
\<close>

fun partial_hide :: "json \<Rightarrow> py_error + string" where
  "partial_hide (JStr text) = Inr (partial_hide_str text)"
| "partial_hide (JArr xs) = (if JStr ''@'' \<in> set xs then Inl AttributeError else Inl TypeError)"
| "partial_hide (JObj kvs) =
     (if ''@'' \<in> set (map fst kvs) then Inl AttributeError else Inl TypeError)"
| "partial_hide _ = Inl TypeError"

text \<open>
  The comparisons \<open>now > exp\<close> and \<open>now <= exp\<close> of an int with a payload value: defined
  for numbers (a bool counts as 0 or 1), \<open>TypeError\<close> otherwise.
\<close>

fun int_gt :: "int \<Rightarrow> json \<Rightarrow> py_error + bool" where
  "int_gt a (JInt b) = Inr (a > b)"
| "int_gt a (JBool b) = Inr (a > (if b then 1 else 0))"
| "int_gt a (JFloat (Finite q)) = Inr (of_int a > q)"
| "int_gt a (JFloat PosInf) = Inr False"
| "int_gt a (JFloat NegInf) = Inr True"
| "int_gt a (JFloat NaN) = Inr False"
| "int_gt a _ = Inl TypeError"

fun int_le :: "int \<Rightarrow> json \<Rightarrow> py_error + bool" where
  "int_le a (JInt b) = Inr (a \<le> b)"
| "int_le a (JBool b) = Inr (a \<le> (if b then 1 else 0))"
| "int_le a (JFloat (Finite q)) = Inr (of_int a \<le> q)"
| "int_le a (JFloat PosInf) = Inr True"
| "int_le a (JFloat NegInf) = Inr False"
| "int_le a (JFloat NaN) = Inr False"
| "int_le a _ = Inl TypeError"

definition check_token_status ::
  "int \<Rightarrow> json \<Rightarrow> string \<Rightarrow> world \<Rightarrow> (py_error + unit) \<times> world" where
  "check_token_status now_utc exp_utc exp_str_msk w =
     (case int_gt now_utc exp_utc of
        Inl e \<Rightarrow> (Inl e, w)
      | Inr True \<Rightarrow> (Inr (), styled_log TokenExpired w)
      | Inr False \<Rightarrow> (Inr (), styled_log (TokenActive exp_str_msk) w))"

section \<open>Dates\<close>

text \<open>
  The range of \<open>datetime\<close>: years 1 to 9999. In seconds since the epoch the first and the
  last second, in microseconds the last instant.
\<close>

definition min_timestamp :: int where "min_timestamp = - 62135596800"
definition max_timestamp :: int where "max_timestamp = 253402300799"
definition max_datetime :: int where "max_datetime = 253402300799999999"

text \<open>
  \<^verbatim>\<open>datetime.fromtimestamp(user_e, timezone.utc).astimezone(MOSCOW_TZ).strftime(...)\<close>:
  a value that is no number is a \<open>TypeError\<close>, a second outside the years 1 to 9999 is
  out of range.
\<close>

fun expiry_string :: "pylib \<Rightarrow> json \<Rightarrow> py_error + string" where
  "expiry_string lib (JInt n) =
     (if n < min_timestamp \<or> max_timestamp < n then Inl ValueError
      else msk_string lib (n * 1000000))"
| "expiry_string lib (JBool b) = msk_string lib (if b then 1000000 else 0)"
| "expiry_string lib (JFloat f) =
     (case float_timestamp lib f of Inl e \<Rightarrow> Inl e | Inr t \<Rightarrow> msk_string lib t)"
| "expiry_string lib _ = Inl TypeError"

text \<open>\<open>datetime.strptime(last_c_str, ...)\<close>: the argument must be a str.\<close>

fun parse_checkin_time :: "pylib \<Rightarrow> json \<Rightarrow> py_error + int" where
  "parse_checkin_time lib (JStr s) = strptime lib s"
| "parse_checkin_time lib _ = Inl TypeError"

text \<open>\<open>dt_parsed + timedelta(hours=24)\<close>, which raises beyond the year 9999.\<close>

definition plus_24h :: "int \<Rightarrow> py_error + int" where
  "plus_24h t = (if max_datetime < t + 24 * 3600 * 1000000 then Inl OverflowError
                 else Inr (t + 24 * 3600 * 1000000))"

section \<open>manage_checkin\<close>

text \<open>
  The two places that call \<open>perform_checkin\<close> differ in the messages only: a truthy
  result is read with \<open>.get("tokensToAward", "N/A")\<close> and logged as a success, a falsy
  one is logged as a failure.
\<close>

definition checkin_and_log ::
  "(json \<Rightarrow> logmsg) \<Rightarrow> logmsg \<Rightarrow> json \<Rightarrow> json \<Rightarrow> world \<Rightarrow> (py_error + unit) \<times> world" where
  "checkin_and_log ok_msg fail_msg token user_id w =
     (case perform_checkin token user_id w of
        (Inl e, w1) \<Rightarrow> (Inl e, w1)
      | (Inr c_res, w1) \<Rightarrow>
          if truthy c_res then
            (case c_res of
               JObj c \<Rightarrow>
                 (Inr (),
                  styled_log (ok_msg (dict_get_default c ''tokensToAward'' (JStr ''N/A''))) w1)
             | _ \<Rightarrow> (Inl AttributeError, w1))
          else (Inr (), styled_log fail_msg w1))"

definition manage_checkin ::
  "pylib \<Rightarrow> json \<Rightarrow> json \<Rightarrow> world \<Rightarrow> (py_error + unit) \<times> world" where
  "manage_checkin lib token user_id w =
     (case request_user_info token w of
        (Inl e, w1) \<Rightarrow> (Inl e, w1)
      | (Inr info, w1) \<Rightarrow>
          if \<not> truthy info then (Inr (), styled_log UserInfoFailed w1)
          else
            (case info of
               JObj d \<Rightarrow>
                 (let bal = dict_get_default d ''dipTokenBalance'' (JStr ''N/A'');
                      last_c_str = dict_get d ''dipInitMineTime'';
                      w2 = styled_log (Balance bal) w1
                  in if \<not> truthy last_c_str then
                       checkin_and_log CheckinOk CheckinNotDone token user_id w2
                     else
                       (let dt_now_utc = clock w2 in
                        case parse_checkin_time lib last_c_str of
                          Inl e \<Rightarrow> (Inl e, w2)
                        | Inr dt_parsed \<Rightarrow>
                            (case plus_24h dt_parsed of
                               Inl e \<Rightarrow> (Inl e, w2)
                             | Inr dt_next \<Rightarrow>
                                 (case msk_string lib dt_next of
                                    Inl e \<Rightarrow> (Inl e, w2)
                                  | Inr next_str \<Rightarrow>
                                      if dt_now_utc \<ge> dt_next then
                                        checkin_and_log RecheckinOk RecheckinFailed
                                          token user_id w2
                                      else (Inr (), styled_log (AlreadyDone next_str) w2)))))
             | _ \<Rightarrow> (Inl AttributeError, w1)))"

section \<open>main_cycle and run_final\<close>

text \<open>
  \<open>extract_jwt_data\<close> called on the value the sign-in returned: a value that is no str
  has no \<open>split\<close>, and the \<open>AttributeError\<close> is caught like every other.
\<close>

fun extract_jwt_data_value :: "pylib \<Rightarrow> json \<Rightarrow> py_error + json \<times> json \<times> json" where
  "extract_jwt_data_value lib (JStr entry) = extract_jwt_data lib entry"
| "extract_jwt_data_value lib _ = Inr (JNull, JNull, JNull)"

text \<open>\<open>manage_checkin\<close> followed by the three seconds of sleep.\<close>

definition checkin_then_sleep ::
  "pylib \<Rightarrow> json \<Rightarrow> json \<Rightarrow> world \<Rightarrow> (py_error + unit) \<times> world" where
  "checkin_then_sleep lib token user_id w =
     (case manage_checkin lib token user_id w of
        (Inl e, w1) \<Rightarrow> (Inl e, w1)
      | (Inr u, w1) \<Rightarrow> (Inr (), asyncio_sleep 3 w1))"

text \<open>The body of \<^verbatim>\<open>for line in lines\<close>.\<close>

definition process_line :: "pylib \<Rightarrow> string \<Rightarrow> world \<Rightarrow> (py_error + unit) \<times> world" where
  "process_line lib line w =
     (if CHR ''@'' \<notin> set line then
        (let now_int = time_int w in
         case extract_jwt_data lib line of
           Inl e \<Rightarrow> (Inl e, w)
         | Inr (user_n, user_s, user_e) \<Rightarrow>
             if truthy user_n \<and> truthy user_s \<and> truthy user_e then
               (case partial_hide user_n of
                  Inl e \<Rightarrow> (Inl e, w)
                | Inr masked_n \<Rightarrow>
                    (let w1 = styled_log (AccountHeader masked_n) w in
                     case expiry_string lib user_e of
                       Inl e \<Rightarrow> (Inl e, w1)
                     | Inr ex_str \<Rightarrow>
                         (case check_token_status now_int user_e ex_str w1 of
                            (Inl e, w2) \<Rightarrow> (Inl e, w2)
                          | (Inr u, w2) \<Rightarrow>
                              (case int_le now_int user_e of
                                 Inl e \<Rightarrow> (Inl e, w2)
                               | Inr True \<Rightarrow> checkin_then_sleep lib (JStr line) user_s w2
                               | Inr False \<Rightarrow> (Inr (), w2)))))
             else (Inr (), w))
      else
        (case split_once (CHR '':'') line of
           [mail, passwd] \<Rightarrow>
             (let w1 = styled_log (AccountHeader (partial_hide_str mail)) w in
              case attempt_email_signin mail passwd 5 w1 of
                (Inl e, w2) \<Rightarrow> (Inl e, w2)
              | (Inr tok, w2) \<Rightarrow>
                  if truthy tok then
                    (case extract_jwt_data_value lib tok of
                       Inl e \<Rightarrow> (Inl e, w2)
                     | Inr (nm_j, s_j, e_j) \<Rightarrow>
                         if truthy s_j then checkin_then_sleep lib tok s_j w2
                         else (Inr (), w2))
                  else (Inr (), w2))
         | _ \<Rightarrow> (Inr (), styled_log (InvalidFormat line) w)))"

text \<open>\<^verbatim>\<open>for line in lines\<close>: an exception of one line ends the loop.\<close>

fun for_lines :: "pylib \<Rightarrow> string list \<Rightarrow> world \<Rightarrow> (py_error + unit) \<times> world" where
  "for_lines lib [] w = (Inr (), w)"
| "for_lines lib (line # rest) w =
     (case process_line lib line w of
        (Inl e, w1) \<Rightarrow> (Inl e, w1)
      | (Inr u, w1) \<Rightarrow> for_lines lib rest w1)"

text \<open>The twelve hours of waiting: one line of display and one second of sleep at a time.\<close>

fun wait_display :: "nat \<Rightarrow> world \<Rightarrow> world" where
  "wait_display 0 w = w"
| "wait_display (Suc n) w =
     wait_display n
       (asyncio_sleep 1 (w\<lparr>trace := trace w @ [WaitDisplay (format_seconds (int (Suc n)))]\<rparr>))"

text \<open>\<open>str.strip()\<close> and the reading of the file: stripped lines, blank ones left out.\<close>

definition py_isspace :: "char \<Rightarrow> bool" where
  "py_isspace c =
     ((of_char c :: nat) \<in> set [9, 10, 11, 12, 13, 28, 29, 30, 31, 32, 133, 160])"

definition strip :: "string \<Rightarrow> string" where
  "strip s = rev (dropWhile py_isspace (rev (dropWhile py_isspace s)))"

definition read_accounts :: "string list \<Rightarrow> string list" where
  "read_accounts raw = map strip (filter (\<lambda>ln. strip ln \<noteq> []) raw)"

definition short_banner :: "world \<Rightarrow> world" where
  "short_banner w = w\<lparr>trace := trace w @ [Banner]\<rparr>"

text \<open>
  \<^verbatim>\<open>while True\<close>: the loop has no exit of its own. The first argument bounds the number of
  passes the model follows; \<open>None\<close> says that the loop was still running after that many.
\<close>

fun main_loop ::
  "nat \<Rightarrow> pylib \<Rightarrow> string list \<Rightarrow> world \<Rightarrow> (py_error + unit) option \<times> world" where
  "main_loop 0 lib lines w = (None, w)"
| "main_loop (Suc fuel) lib lines w =
     (let w1 = styled_log (TotalAccounts (length lines)) (short_banner w) in
      case for_lines lib lines w1 of
        (Inl e, w2) \<Rightarrow> (Some (Inl e), w2)
      | (Inr u, w2) \<Rightarrow>
          main_loop fuel lib lines (wait_display (12 * 3600) (styled_log AllProcessed w2)))"

definition main_cycle :: "nat \<Rightarrow> pylib \<Rightarrow> world \<Rightarrow> (py_error + unit) option \<times> world" where
  "main_cycle fuel lib w =
     (case accounts_file w of
        Inl e \<Rightarrow>
          if e = FileNotFoundError then (Some (Inr ()), styled_log FileMissing w)
          else (Some (Inl e), w)
      | Inr raw \<Rightarrow> main_loop fuel lib (read_accounts raw) w)"

text \<open>
  \<open>run_final\<close>: \<open>except Exception\<close> around \<open>main_cycle\<close> logs the exception, and the
  function ends.
\<close>

definition run_final :: "nat \<Rightarrow> pylib \<Rightarrow> world \<Rightarrow> (py_error + unit) option \<times> world" where
  "run_final fuel lib w =
     (case main_cycle fuel lib w of
        (Some (Inl ex), w1) \<Rightarrow> (Some (Inr ()), styled_log (ErrorMsg ex) w1)
      | (r, w1) \<Rightarrow> (r, w1))"

section \<open>Observations on traces, and sample worlds\<close>

text \<open>What \<open>f\<close> failed attempts leave in the trace: each the request and three seconds of sleep.\<close>

definition retry_trace :: "request \<Rightarrow> nat \<Rightarrow> event list" where
  "retry_trace rq f = concat (replicate f [Http rq, Sleep 3])"

text \<open>The events a run added to the trace.\<close>

definition events_since :: "world \<Rightarrow> world \<Rightarrow> event list" where
  "events_since w w' = drop (length (trace w)) (trace w')"

text \<open>
  A world for examples: 1 May 2024, 10:00:00 UTC on the clock, a remote side that
  answers every call after a quarter of a second with what \<open>reply\<close> says, and the given
  lines in \<open>accounts.txt\<close>.
\<close>

definition demo_world :: "(nat \<Rightarrow> request \<Rightarrow> py_error + json) \<Rightarrow> string list \<Rightarrow> world" where
  "demo_world reply file_lines =
     \<lparr>clock = 1714557600000000, calls = 0, server = (\<lambda>n rq. (250000, reply n rq)),
      accounts_file = Inr file_lines, trace = []\<rparr>"

definition server_down :: "nat \<Rightarrow> request \<Rightarrow> py_error + json" where
  "server_down n rq = Inl ClientError"

text \<open>
  A stand-in for the library that knows the texts and the instants of the examples:
  ASCII bytes decode to themselves, the payloads below parse to their claims, the two
  check-in times parse to their instants, and the instants of the examples are rendered
  in Moscow time.
\<close>

definition demo_text :: "string \<Rightarrow> string" where
  "demo_text e = ''{\"email\":\"a@b.co\",\"sub\":\"7\",\"exp\":'' @ e @ ''}''"

definition demo_claims :: "int \<Rightarrow> json" where
  "demo_claims e = JObj [(''email'', JStr ''a@b.co''), (''sub'', JStr ''7''), (''exp'', JInt e)]"

definition demo_utf8_decode :: "byte list \<Rightarrow> py_error + string" where
  "demo_utf8_decode bs =
     (if list_all (\<lambda>b. b < 128) bs then Inr (map char_of bs) else Inl UnicodeError)"

definition demo_json_loads :: "string \<Rightarrow> py_error + json" where
  "demo_json_loads txt =
     (if txt = demo_text ''1714557600'' then Inr (demo_claims 1714557600)
      else if txt = demo_text ''1714561200'' then Inr (demo_claims 1714561200)
      else if txt = demo_text ''1714554000'' then Inr (demo_claims 1714554000)
      else if txt = demo_text ''1714561200000'' then Inr (demo_claims 1714561200000)
      else if txt = demo_text ''0'' then Inr (demo_claims 0)
      else if txt = ''7'' then Inr (JInt 7)
      else Inl JSONDecodeError)"

definition demo_strptime :: "string \<Rightarrow> py_error + int" where
  "demo_strptime s =
     (if s = ''2024-05-01T09:00:00.000Z'' then Inr 1714554000000000
      else if s = ''2024-04-30T09:00:00.000Z'' then Inr 1714467600000000
      else Inl ValueError)"

definition demo_msk_string :: "int \<Rightarrow> py_error + string" where
  "demo_msk_string t =
     (if t = 1714554000000000 then Inr ''01-05-2024 12:00:00 MSK''
      else if t = 1714557600000000 then Inr ''01-05-2024 13:00:00 MSK''
      else if t = 1714561200000000 then Inr ''01-05-2024 14:00:00 MSK''
      else if t = 1714640400000000 then Inr ''02-05-2024 12:00:00 MSK''
      else Inl OverflowError)"

definition demo_lib :: pylib where
  "demo_lib =
     \<lparr>utf8_decode = demo_utf8_decode, json_loads = demo_json_loads,
      strptime = demo_strptime, msk_string = demo_msk_string,
      float_timestamp = (\<lambda>f. Inl ValueError)\<rparr>"

text \<open>The token \<open>h.<payload>.s\<close> whose payload carries the given \<open>exp\<close>.\<close>

definition demo_token :: "string \<Rightarrow> string" where
  "demo_token e = ''h.'' @ urlsafe_b64encode_nopad (map of_char (demo_text e)) @ ''.s''"

section \<open>Properties of format_seconds\<close>

lemma below_ten: "d < 10 \<Longrightarrow> d \<in> {0, 1, 2, 3, 4, 5, 6, 7, 8, 9::nat}"
  by auto

lemma digit_val_digit_char: "d < 10 \<Longrightarrow> digit_val (digit_char d) = d"
  by (drule below_ten) (auto simp: digit_val_def digit_char_def)

lemma is_digit_digit_char: "d < 10 \<Longrightarrow> is_digit (digit_char d)"
  by (drule below_ten) (auto simp: is_digit_def digit_char_def)

lemma dec_val_snoc: "dec_val (ds @ [c]) = 10 * dec_val ds + digit_val c"
  by (simp add: dec_val_def)

lemma dec_val_str_nat: "dec_val (str_nat n) = n"
proof (induction n rule: str_nat.induct)
  case (1 n)
  show ?case
  proof (cases "n < 10")
    case True
    then show ?thesis
      by (subst str_nat.simps) (simp add: dec_val_def digit_val_digit_char)
  next
    case False
    with "1.IH" have "dec_val (str_nat (n div 10)) = n div 10" by simp
    with False show ?thesis
      by (subst str_nat.simps) (simp add: dec_val_snoc digit_val_digit_char)
  qed
qed

lemma digits_str_nat: "list_all is_digit (str_nat n)"
proof (induction n rule: str_nat.induct)
  case (1 n)
  show ?case
  proof (cases "n < 10")
    case True
    then show ?thesis
      by (subst str_nat.simps) (simp add: is_digit_digit_char)
  next
    case False
    with "1.IH" have "list_all is_digit (str_nat (n div 10))" by simp
    with False show ?thesis
      by (subst str_nat.simps) (simp add: is_digit_digit_char)
  qed
qed

lemma length_str_nat_pos: "0 < length (str_nat n)"
  by (subst str_nat.simps) simp

lemma length_str_nat_small:
  assumes "n < 100"
  shows "length (str_nat n) \<le> 2"
proof (cases "n < 10")
  case True
  then show ?thesis by (simp add: str_nat.simps [of n])
next
  case False
  with assms have "n div 10 < 10" by simp
  then have "length (str_nat (n div 10)) = 1" by (simp add: str_nat.simps [of "n div 10"])
  with False show ?thesis by (simp add: str_nat.simps [of n])
qed

lemma dec_val_zeros: "dec_val (replicate k (CHR ''0'') @ ds) = dec_val ds"
proof -
  have "foldl (\<lambda>acc c. 10 * acc + digit_val c) 0 (replicate k (CHR ''0'')) = 0"
    by (induction k) (simp_all add: digit_val_def)
  then show ?thesis by (simp add: dec_val_def)
qed

lemma dec_val_zfill: "dec_val (zfill w ds) = dec_val ds"
  by (simp add: zfill_def dec_val_zeros)

lemma digits_zfill: "list_all is_digit ds \<Longrightarrow> list_all is_digit (zfill w ds)"
  by (auto simp: zfill_def is_digit_def list_all_iff)

lemma length_zfill: "length (zfill w ds) = max w (length ds)"
  by (simp add: zfill_def)

lemma format_02_nonneg:
  assumes "0 \<le> i"
  shows "dec_val (format_02 i) = nat i" and "list_all is_digit (format_02 i)"
    and "2 \<le> length (format_02 i)"
  using assms
  by (simp_all add: format_02_def dec_val_zfill dec_val_str_nat digits_zfill digits_str_nat
      length_zfill)

lemma format_02_small:
  assumes "0 \<le> i" and "i < 100"
  shows "length (format_02 i) = 2"
proof -
  from assms have "length (str_nat (nat i)) \<le> 2"
    by (intro length_str_nat_small) simp
  with assms show ?thesis by (simp add: format_02_def length_zfill)
qed

lemma split_on_no_sep: "sep \<notin> set xs \<Longrightarrow> split_on sep xs = [xs]"
  by (induction xs) auto

lemma split_on_append:
  "sep \<notin> set xs \<Longrightarrow> split_on sep (xs @ sep # ys) = xs # split_on sep ys"
  by (induction xs) auto

lemma digits_no_colon: "list_all is_digit ds \<Longrightarrow> CHR '':'' \<notin> set ds"
  by (auto simp: list_all_iff is_digit_def)

text \<open>
  C10. For every non-negative integer \<open>sec\<close> the result of \<open>format_seconds\<close> splits at
  its colons into exactly three fields of decimal digits, the first at least two
  characters wide and the other two exactly two, and the numbers \<open>h\<close>, \<open>m\<close>, \<open>s\<close> they
  denote satisfy \<open>h * 3600 + m * 60 + s = sec\<close> with \<open>m < 60\<close> and \<open>s < 60\<close>.
\<close>

theorem format_seconds_hms:
  assumes "0 \<le> sec"
  shows "\<exists>hs ms ss.
           format_seconds sec = hs @ '':'' @ ms @ '':'' @ ss \<and>
           split_on (CHR '':'') (format_seconds sec) = [hs, ms, ss] \<and>
           list_all is_digit hs \<and> list_all is_digit ms \<and> list_all is_digit ss \<and>
           2 \<le> length hs \<and> length ms = 2 \<and> length ss = 2 \<and>
           int (dec_val hs) * 3600 + int (dec_val ms) * 60 + int (dec_val ss) = sec \<and>
           dec_val ms < 60 \<and> dec_val ss < 60"
proof -
  define h where "h = sec div 3600"
  define m where "m = (sec mod 3600) div 60"
  define s where "s = (sec mod 3600) mod 60"
  have h0: "0 \<le> h" using assms by (simp add: h_def)
  have m0: "0 \<le> m" and m60: "m < 60" by (simp_all add: m_def)
  have s0: "0 \<le> s" and s60: "s < 60" by (simp_all add: s_def)
  have total: "h * 3600 + m * 60 + s = sec"
    unfolding h_def m_def s_def by presburger
  have shape: "format_seconds sec = format_02 h @ '':'' @ format_02 m @ '':'' @ format_02 s"
    by (simp add: format_seconds_def Let_def h_def m_def s_def)
  have dh: "list_all is_digit (format_02 h)" and dm: "list_all is_digit (format_02 m)"
    and ds: "list_all is_digit (format_02 s)"
    using h0 m0 s0 by (simp_all add: format_02_nonneg)
  have parts: "split_on (CHR '':'') (format_seconds sec) = [format_02 h, format_02 m, format_02 s]"
    using digits_no_colon [OF dh] digits_no_colon [OF dm] digits_no_colon [OF ds]
    by (simp add: shape split_on_append split_on_no_sep)
  have lm: "length (format_02 m) = 2" and ls: "length (format_02 s) = 2"
    using m0 m60 s0 s60 by (simp_all add: format_02_small)
  have lh: "2 \<le> length (format_02 h)" using h0 by (rule format_02_nonneg)
  have vals: "int (dec_val (format_02 h)) = h" "int (dec_val (format_02 m)) = m"
    "int (dec_val (format_02 s)) = s"
    using h0 m0 s0 by (simp_all add: format_02_nonneg)
  have "dec_val (format_02 m) < 60" "dec_val (format_02 s) < 60"
    using m0 m60 s0 s60 by (simp_all add: format_02_nonneg)
  with shape parts dh dm ds lm ls lh vals total show ?thesis by auto
qed

theorem format_seconds_hms_witness:
  "(0::int) \<le> 43200 \<and> format_seconds 43200 = ''12:00:00'' \<and>
   (\<exists>hs ms ss. split_on (CHR '':'') (format_seconds 43200) = [hs, ms, ss] \<and>
      int (dec_val hs) * 3600 + int (dec_val ms) * 60 + int (dec_val ss) = 43200)"
proof -
  have h: "(0::int) \<le> 43200" by simp
  have v: "format_seconds 43200 = ''12:00:00''"
    by code_simp
  from format_seconds_hms [OF h] v show ?thesis by auto
qed

section \<open>Properties of extract_jwt_data\<close>

lemma b64_digit_table: "list_all (\<lambda>d. table_a2b_base64 (urlsafe_translate (b64_digit d)) = Some d
    \<and> b64_digit d \<noteq> CHR ''='' \<and> b64_digit d \<noteq> CHR ''.'' \<and> urlsafe_translate (b64_digit d) \<noteq> CHR ''=''
    \<and> (of_char (b64_digit d) :: nat) < 128) [0..<64]"
  by code_simp

lemma b64_digit_props:
  assumes "d < 64"
  shows "table_a2b_base64 (urlsafe_translate (b64_digit d)) = Some d"
    and "b64_digit d \<noteq> CHR ''=''" and "b64_digit d \<noteq> CHR ''.''"
    and "urlsafe_translate (b64_digit d) \<noteq> CHR ''=''"
    and "(of_char (b64_digit d) :: nat) < 128"
  using assms b64_digit_table by (auto simp: list_all_iff)

lemma a2b_pads_closed: "a2b_loop 0 l p out (replicate j (CHR ''='')) = Inr out"
  by (induction j) auto

lemma a2b_group:
  assumes "a < 256" "b < 256" "c < 256"
  shows "a2b_loop 0 l p out (map urlsafe_translate
           [b64_digit (a div 4), b64_digit (a mod 4 * 16 + b div 16),
            b64_digit (b mod 16 * 4 + c div 64), b64_digit (c mod 64)] @ rest)
         = a2b_loop 0 0 0 (out @ [a, b, c]) rest"
proof -
  have d: "a div 4 < 64" "a mod 4 * 16 + b div 16 < 64" "b mod 16 * 4 + c div 64 < 64" "c mod 64 < 64"
    using assms by simp_all
  show ?thesis using assms
    by (simp add: b64_digit_props [OF d(1)] b64_digit_props [OF d(2)] b64_digit_props [OF d(3)]
       b64_digit_props [OF d(4)])
qed

lemma a2b_tail1:
  assumes "a < 256" "2 \<le> j"
  shows "a2b_loop 0 l p out (map urlsafe_translate
           [b64_digit (a div 4), b64_digit (a mod 4 * 16)] @ replicate j (CHR ''=''))
         = Inr (out @ [a])"
proof -
  have d: "a div 4 < 64" "a mod 4 * 16 < 64" using assms by simp_all
  from assms(2) obtain k where j: "j = Suc (Suc k)"
    by (metis Suc_le_D numeral_2_eq_2 Suc_le_mono)
  show ?thesis using assms(1)
    by (simp add: j b64_digit_props [OF d(1)] b64_digit_props [OF d(2)])
qed

lemma a2b_tail2:
  assumes "a < 256" "b < 256" "1 \<le> j"
  shows "a2b_loop 0 l p out (map urlsafe_translate
           [b64_digit (a div 4), b64_digit (a mod 4 * 16 + b div 16), b64_digit (b mod 16 * 4)]
           @ replicate j (CHR ''=''))
         = Inr (out @ [a, b])"
proof -
  have d: "a div 4 < 64" "a mod 4 * 16 + b div 16 < 64" "b mod 16 * 4 < 64"
    using assms by simp_all
  from assms(3) obtain k where j: "j = Suc k"
    by (metis Suc_le_D One_nat_def)
  show ?thesis using assms(1,2)
    by (simp add: j b64_digit_props [OF d(1)] b64_digit_props [OF d(2)] b64_digit_props [OF d(3)])
qed

lemma a2b_loop_encode:
  assumes "\<forall>b \<in> set bs. b < 256" and "2 \<le> j"
  shows "a2b_loop 0 l p out
           (map urlsafe_translate (urlsafe_b64encode_nopad bs) @ replicate j (CHR ''=''))
         = Inr (out @ bs)"
  using assms
proof (induction bs arbitrary: l p out rule: urlsafe_b64encode_nopad.induct)
  case 1
  then show ?case by (simp add: a2b_pads_closed)
next
  case (2 a)
  then show ?case using a2b_tail1 [of a j l p out] by simp
next
  case (3 a b)
  then show ?case using a2b_tail2 [of a b j l p out] by simp
next
  case (4 a b c rest)
  have "a2b_loop 0 l p out
          (map urlsafe_translate (urlsafe_b64encode_nopad (a # b # c # rest))
           @ replicate j (CHR ''=''))
        = a2b_loop 0 0 0 (out @ [a, b, c])
            (map urlsafe_translate (urlsafe_b64encode_nopad rest) @ replicate j (CHR ''=''))"
    using "4.prems" a2b_group [of a b c l p out] by simp
  also have "\<dots> = Inr ((out @ [a, b, c]) @ rest)"
    using "4.prems" by (intro "4.IH") simp_all
  finally show ?case by simp
qed

lemma encode_nopad_chars:
  assumes "\<forall>b \<in> set bs. b < 256"
  shows "\<forall>c \<in> set (urlsafe_b64encode_nopad bs).
           c \<noteq> CHR ''.'' \<and> (of_char c :: nat) < 128"
  using assms
proof (induction bs rule: urlsafe_b64encode_nopad.induct)
  case 1
  then show ?case by simp
next
  case (2 a)
  then have "a < 256" by simp
  then have d: "a div 4 < 64" "a mod 4 * 16 < 64" by simp_all
  show ?case
    using b64_digit_props(3,5) [OF d(1)] b64_digit_props(3,5) [OF d(2)] by simp
next
  case (3 a b)
  then have "a < 256" "b < 256" by simp_all
  then have d: "a div 4 < 64" "a mod 4 * 16 + b div 16 < 64" "b mod 16 * 4 < 64" by simp_all
  show ?case
    using b64_digit_props(3,5) [OF d(1)] b64_digit_props(3,5) [OF d(2)]
      b64_digit_props(3,5) [OF d(3)] by simp
next
  case (4 a b c rest)
  then have "a < 256" "b < 256" "c < 256" by simp_all
  then have d: "a div 4 < 64" "a mod 4 * 16 + b div 16 < 64" "b mod 16 * 4 + c div 64 < 64"
    "c mod 64 < 64" by simp_all
  from 4 have ih: "\<forall>c \<in> set (urlsafe_b64encode_nopad rest).
           c \<noteq> CHR ''.'' \<and> (of_char c :: nat) < 128" by simp
  show ?case
    using b64_digit_props(3,5) [OF d(1)] b64_digit_props(3,5) [OF d(2)]
      b64_digit_props(3,5) [OF d(3)] b64_digit_props(3,5) [OF d(4)] ih by simp
qed

lemma encode_pad_ascii:
  assumes "\<forall>b \<in> set bs. b < 256"
  shows "\<not> (\<exists>c \<in> set (urlsafe_b64encode_nopad bs @ replicate j (CHR ''='')). 128 \<le> (of_char c :: nat))"
proof -
  have "\<forall>c \<in> set (urlsafe_b64encode_nopad bs). (of_char c :: nat) < 128"
    using encode_nopad_chars [OF assms(1)] by blast
  moreover have "(of_char (CHR ''='') :: nat) < 128" by simp
  ultimately show ?thesis by (auto simp: not_le)
qed

lemma urlsafe_b64decode_encode:
  assumes "\<forall>b \<in> set bs. b < 256" and "2 \<le> j"
  shows "urlsafe_b64decode (urlsafe_b64encode_nopad bs @ replicate j (CHR ''='')) = Inr bs"
proof -
  have pad: "map urlsafe_translate (replicate j (CHR ''='')) = replicate j (CHR ''='')"
    by (simp add: urlsafe_translate_def)
  have "urlsafe_b64decode (urlsafe_b64encode_nopad bs @ replicate j (CHR ''=''))
      = a2b_loop 0 0 0 []
          (map urlsafe_translate (urlsafe_b64encode_nopad bs @ replicate j (CHR ''='')))"
    by (simp only: urlsafe_b64decode_def a2b_base64_def encode_pad_ascii [OF assms(1)] if_False)
  also have "\<dots> = a2b_loop 0 0 0 []
          (map urlsafe_translate (urlsafe_b64encode_nopad bs) @ replicate j (CHR ''=''))"
    by (simp only: map_append pad)
  also have "\<dots> = Inr ([] @ bs)"
    using assms by (rule a2b_loop_encode)
  finally show ?thesis by simp
qed

lemma split_on_three:
  assumes "sep \<notin> set xs" "sep \<notin> set ys" "sep \<notin> set zs"
  shows "split_on sep (xs @ sep # ys @ sep # zs) = [xs, ys, zs]"
  using assms by (simp add: split_on_append split_on_no_sep)

lemma extract_jwt_data_returns: "\<exists>r. extract_jwt_data lib entry = Inr r"
  by (simp add: extract_jwt_data_def split: sum.splits)

lemma extract_jwt_data_failure:
  "extract_jwt_data_try lib entry = Inl e \<Longrightarrow>
   extract_jwt_data lib entry = Inr (JNull, JNull, JNull)"
  by (simp add: extract_jwt_data_def)

text \<open>
  C4. \<open>extract_jwt_data\<close> never raises: for every library behaviour and every input
  string it returns a triple. The triple is all \<open>None\<close> when the string does not split
  at its dots into exactly three parts, when the second part (with \<open>==\<close> appended) fails
  base64 decoding, when the bytes are not UTF-8, when the text is not JSON, and when the
  JSON value is not an object.
\<close>

theorem extract_jwt_data_total:
  "(\<exists>r. extract_jwt_data lib entry = Inr r) \<and>
   (length (split_on (CHR ''.'') entry) \<noteq> 3 \<longrightarrow>
      extract_jwt_data lib entry = Inr (JNull, JNull, JNull)) \<and>
   (urlsafe_b64decode (split_on (CHR ''.'') entry ! 1 @ ''=='') = Inl e1 \<longrightarrow>
      extract_jwt_data lib entry = Inr (JNull, JNull, JNull)) \<and>
   (urlsafe_b64decode (split_on (CHR ''.'') entry ! 1 @ ''=='') = Inr bs \<and>
    utf8_decode lib bs = Inl e2 \<longrightarrow>
      extract_jwt_data lib entry = Inr (JNull, JNull, JNull)) \<and>
   (urlsafe_b64decode (split_on (CHR ''.'') entry ! 1 @ ''=='') = Inr bs \<and>
    utf8_decode lib bs = Inr txt \<and> json_loads lib txt = Inl e3 \<longrightarrow>
      extract_jwt_data lib entry = Inr (JNull, JNull, JNull)) \<and>
   (urlsafe_b64decode (split_on (CHR ''.'') entry ! 1 @ ''=='') = Inr bs \<and>
    utf8_decode lib bs = Inr txt \<and> json_loads lib txt = Inr v \<and> (\<forall>kvs. v \<noteq> JObj kvs) \<longrightarrow>
      extract_jwt_data lib entry = Inr (JNull, JNull, JNull))"
proof (intro conjI impI)
  show "\<exists>r. extract_jwt_data lib entry = Inr r" by (rule extract_jwt_data_returns)
next
  assume "length (split_on (CHR ''.'') entry) \<noteq> 3"
  then show "extract_jwt_data lib entry = Inr (JNull, JNull, JNull)"
    by (simp add: extract_jwt_data_def extract_jwt_data_try_def)
next
  assume "urlsafe_b64decode (split_on (CHR ''.'') entry ! 1 @ ''=='') = Inl e1"
  then show "extract_jwt_data lib entry = Inr (JNull, JNull, JNull)"
    by (simp add: extract_jwt_data_def extract_jwt_data_try_def Let_def)
next
  assume "urlsafe_b64decode (split_on (CHR ''.'') entry ! 1 @ ''=='') = Inr bs \<and>
    utf8_decode lib bs = Inl e2"
  then show "extract_jwt_data lib entry = Inr (JNull, JNull, JNull)"
    by (simp add: extract_jwt_data_def extract_jwt_data_try_def Let_def)
next
  assume "urlsafe_b64decode (split_on (CHR ''.'') entry ! 1 @ ''=='') = Inr bs \<and>
    utf8_decode lib bs = Inr txt \<and> json_loads lib txt = Inl e3"
  then show "extract_jwt_data lib entry = Inr (JNull, JNull, JNull)"
    by (simp add: extract_jwt_data_def extract_jwt_data_try_def Let_def)
next
  assume "urlsafe_b64decode (split_on (CHR ''.'') entry ! 1 @ ''=='') = Inr bs \<and>
    utf8_decode lib bs = Inr txt \<and> json_loads lib txt = Inr v \<and> (\<forall>kvs. v \<noteq> JObj kvs)"
  then show "extract_jwt_data lib entry = Inr (JNull, JNull, JNull)"
    by (cases v) (simp_all add: extract_jwt_data_def extract_jwt_data_try_def Let_def)
qed

lemma extract_jwt_data_encoded:
  assumes "CHR ''.'' \<notin> set hdr" and "CHR ''.'' \<notin> set sig"
    and "\<forall>b \<in> set bs. b < 256"
    and "seg = urlsafe_b64encode bs \<or> seg = urlsafe_b64encode_nopad bs"
    and "utf8_decode lib bs = Inr txt"
    and "json_loads lib txt = Inr (JObj kvs)"
    and "map_of kvs ''email'' = Some user_email"
    and "map_of kvs ''sub'' = Some user_sub"
    and "map_of kvs ''exp'' = Some exp_time"
  shows "extract_jwt_data lib (hdr @ ''.'' @ seg @ ''.'' @ sig)
         = Inr (user_email, user_sub, exp_time)"
proof -
  obtain j where seg: "seg = urlsafe_b64encode_nopad bs @ replicate j (CHR ''='')"
    using assms(4) by (auto simp: urlsafe_b64encode_def intro: that [of 0])
  have nodot: "CHR ''.'' \<notin> set seg"
    using encode_nopad_chars [OF assms(3)] by (auto simp: seg)
  have parts: "split_on (CHR ''.'') (hdr @ ''.'' @ seg @ ''.'' @ sig) = [hdr, seg, sig]"
    using split_on_three [OF assms(1) nodot assms(2)] by simp
  have "replicate j (CHR ''='') @ ''=='' = replicate (j + 2) (CHR ''='')"
    by (simp add: replicate_app_Cons_same)
  then have "seg @ ''=='' = urlsafe_b64encode_nopad bs @ replicate (j + 2) (CHR ''='')"
    by (simp add: seg)
  then have dec: "urlsafe_b64decode (seg @ ''=='') = Inr bs"
    using urlsafe_b64decode_encode [OF assms(3), of "j + 2"] by simp
  have "extract_jwt_data_try lib (hdr @ ''.'' @ seg @ ''.'' @ sig)
        = Inr (user_email, user_sub, exp_time)"
    unfolding extract_jwt_data_try_def parts Let_def
    using assms(5-9) by (simp add: dec dict_get_def dict_get_default_def)
  then show ?thesis
    unfolding extract_jwt_data_def by simp
qed

text \<open>
  C5. A token \<open>hdr.seg.sig\<close> whose header and signature contain no dot and whose middle
  segment is the URL-safe base64 encoding, padded or not, of bytes that decode as UTF-8
  to a JSON text denoting an object with the keys \<open>email\<close>, \<open>sub\<close> and \<open>exp\<close>: the
  function returns exactly the three values stored under these keys.
\<close>

theorem extract_jwt_data_wellformed:
  assumes "CHR ''.'' \<notin> set hdr" and "CHR ''.'' \<notin> set sig"
    and "\<forall>b \<in> set bs. b < 256"
    and "seg = urlsafe_b64encode bs \<or> seg = urlsafe_b64encode_nopad bs"
    and "utf8_decode lib bs = Inr txt"
    and "json_loads lib txt = Inr (JObj kvs)"
    and "map_of kvs ''email'' = Some user_email"
    and "map_of kvs ''sub'' = Some user_sub"
    and "map_of kvs ''exp'' = Some exp_time"
  shows "extract_jwt_data lib (hdr @ ''.'' @ seg @ ''.'' @ sig)
         = Inr (user_email, user_sub, exp_time)"
  using assms by (rule extract_jwt_data_encoded)

section \<open>Facts about the sample library\<close>

lemma demo_lib_fields [simp]:
  "utf8_decode demo_lib = demo_utf8_decode" "json_loads demo_lib = demo_json_loads"
  "strptime demo_lib = demo_strptime" "msk_string demo_lib = demo_msk_string"
  by (simp_all add: demo_lib_def)

lemma demo_utf8_decode_ascii:
  "list_all (\<lambda>c. (of_char c :: nat) < 128) txt \<Longrightarrow>
   demo_utf8_decode (map of_char txt) = Inr txt"
  by (simp add: demo_utf8_decode_def list_all_iff map_idI)

lemma demo_text_ascii:
  "list_all (\<lambda>c. (of_char c :: nat) < 128) e \<Longrightarrow>
   list_all (\<lambda>c. (of_char c :: nat) < 128) (demo_text e)"
  by (simp add: demo_text_def)

lemma demo_extract:
  assumes "list_all (\<lambda>c. (of_char c :: nat) < 128) e"
    and "demo_json_loads (demo_text e) = Inr (demo_claims n)"
  shows "extract_jwt_data demo_lib (demo_token e) = Inr (JStr ''a@b.co'', JStr ''7'', JInt n)"
proof -
  have "extract_jwt_data demo_lib
          (''h'' @ ''.'' @ urlsafe_b64encode_nopad (map of_char (demo_text e)) @ ''.'' @ ''s'')
        = Inr (JStr ''a@b.co'', JStr ''7'', JInt n)"
  proof (rule extract_jwt_data_encoded)
    show "utf8_decode demo_lib (map of_char (demo_text e)) = Inr (demo_text e)"
      using demo_text_ascii [OF assms(1)] by (simp add: demo_utf8_decode_ascii)
    show "json_loads demo_lib (demo_text e) = Inr (JObj [(''email'', JStr ''a@b.co''),
        (''sub'', JStr ''7''), (''exp'', JInt n)])"
      using assms(2) by (simp add: demo_claims_def)
  qed simp_all
  then show ?thesis by (simp add: demo_token_def)
qed

lemma demo_tokens:
  "demo_token ''1714557600'' = ''h.eyJlbWFpbCI6ImFAYi5jbyIsInN1YiI6IjciLCJleHAiOjE3MTQ1NTc2MDB9.s''"
  "demo_token ''1714561200'' = ''h.eyJlbWFpbCI6ImFAYi5jbyIsInN1YiI6IjciLCJleHAiOjE3MTQ1NjEyMDB9.s''"
  "demo_token ''1714554000'' = ''h.eyJlbWFpbCI6ImFAYi5jbyIsInN1YiI6IjciLCJleHAiOjE3MTQ1NTQwMDB9.s''"
  "demo_token ''1714561200000'' = ''h.eyJlbWFpbCI6ImFAYi5jbyIsInN1YiI6IjciLCJleHAiOjE3MTQ1NjEyMDAwMDB9.s''"
  "demo_token ''0'' = ''h.eyJlbWFpbCI6ImFAYi5jbyIsInN1YiI6IjciLCJleHAiOjB9.s''"
  by code_simp+

lemma demo_json_loads_values:
  "demo_json_loads (demo_text ''1714557600'') = Inr (demo_claims 1714557600)"
  "demo_json_loads (demo_text ''1714561200'') = Inr (demo_claims 1714561200)"
  "demo_json_loads (demo_text ''1714554000'') = Inr (demo_claims 1714554000)"
  "demo_json_loads (demo_text ''1714561200000'') = Inr (demo_claims 1714561200000)"
  "demo_json_loads (demo_text ''0'') = Inr (demo_claims 0)"
  by (simp_all add: demo_json_loads_def demo_text_def)

lemma demo_extracts:
  "extract_jwt_data demo_lib (demo_token ''1714557600'') = Inr (JStr ''a@b.co'', JStr ''7'', JInt 1714557600)"
  "extract_jwt_data demo_lib (demo_token ''1714561200'') = Inr (JStr ''a@b.co'', JStr ''7'', JInt 1714561200)"
  "extract_jwt_data demo_lib (demo_token ''1714554000'') = Inr (JStr ''a@b.co'', JStr ''7'', JInt 1714554000)"
  "extract_jwt_data demo_lib (demo_token ''1714561200000'') = Inr (JStr ''a@b.co'', JStr ''7'', JInt 1714561200000)"
  "extract_jwt_data demo_lib (demo_token ''0'') = Inr (JStr ''a@b.co'', JStr ''7'', JInt 0)"
  by (rule demo_extract; simp add: demo_json_loads_values)+

theorem extract_jwt_data_total_witness:
  "length (split_on (CHR ''.'') ''ab.cd'') \<noteq> 3 \<and>
   extract_jwt_data demo_lib ''ab.cd'' = Inr (JNull, JNull, JNull) \<and>
   urlsafe_b64decode (split_on (CHR ''.'') ''a.b.c'' ! 1 @ ''=='') = Inl BinasciiError \<and>
   extract_jwt_data demo_lib ''a.b.c'' = Inr (JNull, JNull, JNull) \<and>
   utf8_decode demo_lib [255] = Inl UnicodeError \<and>
   extract_jwt_data demo_lib ''a._w.c'' = Inr (JNull, JNull, JNull) \<and>
   json_loads demo_lib ''x'' = Inl JSONDecodeError \<and>
   extract_jwt_data demo_lib ''a.eA.c'' = Inr (JNull, JNull, JNull) \<and>
   json_loads demo_lib ''7'' = Inr (JInt 7) \<and>
   extract_jwt_data demo_lib ''a.Nw.c'' = Inr (JNull, JNull, JNull)"
proof -
  have p1: "length (split_on (CHR ''.'') ''ab.cd'') \<noteq> 3" by simp
  have p2: "urlsafe_b64decode (split_on (CHR ''.'') ''a.b.c'' ! 1 @ ''=='') = Inl BinasciiError"
    by code_simp
  have p3: "urlsafe_b64decode (split_on (CHR ''.'') ''a._w.c'' ! 1 @ ''=='') = Inr [255]"
    "utf8_decode demo_lib [255] = Inl UnicodeError"
    by code_simp+
  have p4: "urlsafe_b64decode (split_on (CHR ''.'') ''a.eA.c'' ! 1 @ ''=='') = Inr [120]"
    "utf8_decode demo_lib [120] = Inr ''x''" "json_loads demo_lib ''x'' = Inl JSONDecodeError"
    by code_simp+
  have p5: "urlsafe_b64decode (split_on (CHR ''.'') ''a.Nw.c'' ! 1 @ ''=='') = Inr [55]"
    "utf8_decode demo_lib [55] = Inr ''7''" "json_loads demo_lib ''7'' = Inr (JInt 7)"
    by code_simp+
  have p6: "\<forall>kvs. JInt 7 \<noteq> JObj kvs" by simp
  have r1: "extract_jwt_data demo_lib ''ab.cd'' = Inr (JNull, JNull, JNull)"
    using p1 extract_jwt_data_total [of demo_lib "''ab.cd''"] by blast
  have r2: "extract_jwt_data demo_lib ''a.b.c'' = Inr (JNull, JNull, JNull)"
    using p2 extract_jwt_data_total [of demo_lib "''a.b.c''" BinasciiError] by blast
  have r3: "extract_jwt_data demo_lib ''a._w.c'' = Inr (JNull, JNull, JNull)"
    using p3 extract_jwt_data_total [of demo_lib "''a._w.c''" _ "[255]" UnicodeError] by blast
  have r4: "extract_jwt_data demo_lib ''a.eA.c'' = Inr (JNull, JNull, JNull)"
    using p4 extract_jwt_data_total [of demo_lib "''a.eA.c''" _ "[120]" _ "''x''" JSONDecodeError]
    by blast
  have r5: "extract_jwt_data demo_lib ''a.Nw.c'' = Inr (JNull, JNull, JNull)"
    using p5 p6 extract_jwt_data_total [of demo_lib "''a.Nw.c''" _ "[55]" _ "''7''" _ "JInt 7"]
    by blast
  from p1 p2 p3 p4 p5 r1 r2 r3 r4 r5 show ?thesis by simp
qed

theorem extract_jwt_data_wellformed_witness:
  "extract_jwt_data demo_lib
     ''h.eyJlbWFpbCI6ImFAYi5jbyIsInN1YiI6IjciLCJleHAiOjE3MTQ1NTc2MDB9.s''
   = Inr (JStr ''a@b.co'', JStr ''7'', JInt 1714557600)"
proof -
  define bs :: "byte list" where "bs = map of_char (demo_text ''1714557600'')"
  define kvs where
    "kvs = [(''email'', JStr ''a@b.co''), (''sub'', JStr ''7''), (''exp'', JInt 1714557600)]"
  have h1: "CHR ''.'' \<notin> set ''h''" and h2: "CHR ''.'' \<notin> set ''s''" by simp_all
  have h3: "\<forall>b \<in> set bs. b < 256" by (simp add: bs_def)
  have "''eyJlbWFpbCI6ImFAYi5jbyIsInN1YiI6IjciLCJleHAiOjE3MTQ1NTc2MDB9''
      = urlsafe_b64encode_nopad (map of_char (demo_text ''1714557600''))"
    by code_simp
  then have h4: "''eyJlbWFpbCI6ImFAYi5jbyIsInN1YiI6IjciLCJleHAiOjE3MTQ1NTc2MDB9''
        = urlsafe_b64encode bs
      \<or> ''eyJlbWFpbCI6ImFAYi5jbyIsInN1YiI6IjciLCJleHAiOjE3MTQ1NTc2MDB9''
        = urlsafe_b64encode_nopad bs"
    unfolding bs_def by (rule disjI2)
  have "list_all (\<lambda>c. (of_char c :: nat) < 128) (demo_text ''1714557600'')"
    by (rule demo_text_ascii) simp
  then have h5: "utf8_decode demo_lib bs = Inr (demo_text ''1714557600'')"
    unfolding bs_def demo_lib_fields by (rule demo_utf8_decode_ascii)
  have h6: "json_loads demo_lib (demo_text ''1714557600'') = Inr (JObj kvs)"
    by (simp add: demo_json_loads_values demo_claims_def kvs_def)
  have h7: "map_of kvs ''email'' = Some (JStr ''a@b.co'')"
    and h8: "map_of kvs ''sub'' = Some (JStr ''7'')"
    and h9: "map_of kvs ''exp'' = Some (JInt 1714557600)"
    by (simp_all add: kvs_def)
  from extract_jwt_data_wellformed [OF h1 h2 h3 h4 h5 h6 h7 h8 h9]
  show ?thesis by simp
qed

section \<open>Properties of the network operations\<close>

lemma http_call_fields [simp]:
  "server (snd (http_call rq w)) = server w"
  "calls (snd (http_call rq w)) = Suc (calls w)"
  "trace (snd (http_call rq w)) = trace w @ [Http rq]"
  "fst (http_call rq w) = snd (server w (calls w) rq)"
  by (simp_all add: http_call_def split: prod.splits)

lemma asyncio_sleep_fields [simp]:
  "server (asyncio_sleep n w) = server w"
  "calls (asyncio_sleep n w) = calls w"
  "trace (asyncio_sleep n w) = trace w @ [Sleep n]"
  "clock (asyncio_sleep n w) = clock w + int n * 1000000"
  by (simp_all add: asyncio_sleep_def)

lemma get_json_retrying_returns: "\<exists>v. fst (get_json_retrying rq n w) = Inr v"
  by (induction n arbitrary: w) (auto split: prod.splits sum.splits)

lemma get_json_retrying_calls: "calls (snd (get_json_retrying rq n w)) \<le> calls w + n"
proof (induction n arbitrary: w)
  case 0
  then show ?case by simp
next
  case (Suc n)
  obtain r w1 where h: "http_call rq w = (r, w1)" by (cases "http_call rq w")
  then have c: "calls w1 = Suc (calls w)" using http_call_fields(2) [of rq w] by simp
  show ?case
  proof (cases r)
    case (Inl e)
    with h Suc [of "asyncio_sleep 3 w1"] c show ?thesis by simp
  next
    case (Inr v)
    with h c show ?thesis by simp
  qed
qed

lemma get_json_retrying_trace:
  "(\<exists>f < n. trace (snd (get_json_retrying rq n w)) = trace w @ retry_trace rq f @ [Http rq])
   \<or> (trace (snd (get_json_retrying rq n w)) = trace w @ retry_trace rq n
      \<and> fst (get_json_retrying rq n w) = Inr (JObj []))"
proof (induction n arbitrary: w)
  case 0
  then show ?case by (simp add: retry_trace_def)
next
  case (Suc n)
  obtain r w1 where h: "http_call rq w = (r, w1)" by (cases "http_call rq w")
  then have t: "trace w1 = trace w @ [Http rq]" using http_call_fields(3) [of rq w] by simp
  show ?case
  proof (cases r)
    case (Inr v)
    with h t have "trace (snd (get_json_retrying rq (Suc n) w)) = trace w @ retry_trace rq 0 @ [Http rq]"
      by (simp add: retry_trace_def)
    then show ?thesis by blast
  next
    case (Inl e)
    let ?w2 = "asyncio_sleep 3 w1"
    have step: "get_json_retrying rq (Suc n) w = get_json_retrying rq n ?w2"
      using h Inl by simp
    have t2: "trace ?w2 = trace w @ [Http rq, Sleep 3]" using t by simp
    from Suc [of ?w2] show ?thesis
    proof
      assume "\<exists>f<n. trace (snd (get_json_retrying rq n ?w2)) = trace ?w2 @ retry_trace rq f @ [Http rq]"
      then obtain f where "f < n" and
        "trace (snd (get_json_retrying rq n ?w2)) = trace ?w2 @ retry_trace rq f @ [Http rq]" by blast
      then have "Suc f < Suc n \<and> trace (snd (get_json_retrying rq (Suc n) w))
                 = trace w @ retry_trace rq (Suc f) @ [Http rq]"
        unfolding step by (simp add: t t2 retry_trace_def)
      then show ?thesis by blast
    next
      assume "trace (snd (get_json_retrying rq n ?w2)) = trace ?w2 @ retry_trace rq n
        \<and> fst (get_json_retrying rq n ?w2) = Inr (JObj [])"
      then show ?thesis unfolding step by (simp add: t t2 retry_trace_def)
    qed
  qed
qed

lemma get_json_retrying_exhausted:
  assumes "\<forall>k < n. \<exists>e. snd (server w (calls w + k) rq) = Inl e"
  shows "fst (get_json_retrying rq n w) = Inr (JObj [])
       \<and> calls (snd (get_json_retrying rq n w)) = calls w + n
       \<and> trace (snd (get_json_retrying rq n w)) = trace w @ retry_trace rq n"
  using assms
proof (induction n arbitrary: w)
  case 0
  then show ?case by (simp add: retry_trace_def)
next
  case (Suc n)
  obtain r w1 where h: "http_call rq w = (r, w1)" by (cases "http_call rq w")
  then have f: "server w1 = server w" "calls w1 = Suc (calls w)" "trace w1 = trace w @ [Http rq]"
    "r = snd (server w (calls w) rq)"
    using http_call_fields [of rq w] by simp_all
  from Suc.prems have "\<exists>e. snd (server w (calls w + 0) rq) = Inl e" by blast
  then obtain e where e: "r = Inl e" using f(4) by auto
  let ?w2 = "asyncio_sleep 3 w1"
  have step: "get_json_retrying rq (Suc n) w = get_json_retrying rq n ?w2"
    using h e by simp
  have "\<forall>k < n. \<exists>e. snd (server ?w2 (calls ?w2 + k) rq) = Inl e"
  proof (intro allI impI)
    fix k assume "k < n"
    then have "Suc k < Suc n" by simp
    with Suc.prems have "\<exists>e. snd (server w (calls w + Suc k) rq) = Inl e" by blast
    then show "\<exists>e. snd (server ?w2 (calls ?w2 + k) rq) = Inl e" by (simp add: f)
  qed
  from Suc.IH [OF this] show ?case unfolding step by (simp add: f retry_trace_def)
qed

lemma attempt_email_signin_from_done:
  "\<not> i < attempts \<Longrightarrow> attempt_email_signin_from i email password attempts w = (Inr JNull, w)"
  by (simp add: attempt_email_signin_from.simps)

lemma attempt_email_signin_from_returns:
  "\<exists>v. fst (attempt_email_signin_from i email password attempts w) = Inr v"
proof (induction i email password attempts w rule: attempt_email_signin_from.induct)
  case (1 i email password attempts w)
  show ?case
  proof (cases "i < attempts")
    case False
    then show ?thesis by (simp add: attempt_email_signin_from_done)
  next
    case True
    obtain reply w1 where h: "http_call (SignIn email password) w = (reply, w1)"
      by (cases "http_call (SignIn email password) w")
    show ?thesis
    proof (cases "signin_reply reply")
      case (Inr token)
      with True h show ?thesis
        by (simp add: attempt_email_signin_from.simps [of i email password attempts w])
    next
      case (Inl e)
      with True h "1.IH" [OF True h [symmetric] Inl] show ?thesis
        by (simp add: attempt_email_signin_from.simps [of i email password attempts w])
    qed
  qed
qed

lemma attempt_email_signin_from_trace:
  assumes "i < attempts"
  shows "\<exists>f < attempts - i.
           trace (snd (attempt_email_signin_from i email password attempts w))
             = trace w @ retry_trace (SignIn email password) f @ [Http (SignIn email password)]
         \<and> calls (snd (attempt_email_signin_from i email password attempts w))
             = calls w + Suc f"
  using assms
proof (induction i email password attempts w rule: attempt_email_signin_from.induct)
  case (1 i email password attempts w)
  let ?rq = "SignIn email password"
  obtain reply w1 where h: "http_call ?rq w = (reply, w1)"
    by (cases "http_call ?rq w")
  then have f: "trace w1 = trace w @ [Http ?rq]" "calls w1 = Suc (calls w)"
    using http_call_fields [of ?rq w] by simp_all
  note unfold = attempt_email_signin_from.simps [of i email password attempts w]
  show ?case
  proof (cases "signin_reply reply")
    case (Inr token)
    with "1.prems" h f have
      "0 < attempts - i \<and>
       trace (snd (attempt_email_signin_from i email password attempts w))
         = trace w @ retry_trace ?rq 0 @ [Http ?rq]
       \<and> calls (snd (attempt_email_signin_from i email password attempts w)) = calls w + Suc 0"
      by (simp add: unfold retry_trace_def)
    then show ?thesis by blast
  next
    case (Inl e)
    let ?w2 = "if i < attempts - 1 then asyncio_sleep 3 w1 else w1"
    have step: "attempt_email_signin_from i email password attempts w
        = attempt_email_signin_from (Suc i) email password attempts ?w2"
      using "1.prems" h Inl by (simp add: unfold)
    show ?thesis
    proof (cases "Suc i < attempts")
      case True
      then have w2: "?w2 = asyncio_sleep 3 w1" by simp
      from "1.IH" [OF "1.prems" h [symmetric] Inl True, unfolded w2]
      obtain g where g: "g < attempts - Suc i"
        "trace (snd (attempt_email_signin_from (Suc i) email password attempts
            (asyncio_sleep 3 w1)))
           = trace (asyncio_sleep 3 w1) @ retry_trace ?rq g @ [Http ?rq]"
        "calls (snd (attempt_email_signin_from (Suc i) email password attempts
            (asyncio_sleep 3 w1)))
           = calls (asyncio_sleep 3 w1) + Suc g"
        by blast
      have "Suc g < attempts - i \<and>
        trace (snd (attempt_email_signin_from i email password attempts w))
           = trace w @ retry_trace ?rq (Suc g) @ [Http ?rq]
        \<and> calls (snd (attempt_email_signin_from i email password attempts w))
           = calls w + Suc (Suc g)"
        unfolding step w2 using g True by (simp add: f retry_trace_def)
      then show ?thesis by blast
    next
      case False
      then have w2: "?w2 = w1" using "1.prems" by auto
      have "attempt_email_signin_from (Suc i) email password attempts w1 = (Inr JNull, w1)"
        using False by (simp add: attempt_email_signin_from_done)
      with "1.prems" have
        "0 < attempts - i \<and>
         trace (snd (attempt_email_signin_from i email password attempts w))
           = trace w @ retry_trace ?rq 0 @ [Http ?rq]
         \<and> calls (snd (attempt_email_signin_from i email password attempts w)) = calls w + Suc 0"
        unfolding step w2 by (simp add: f retry_trace_def)
      then show ?thesis by blast
    qed
  qed
qed

lemma attempt_email_signin_from_exhausted:
  assumes "i < attempts"
    and "\<forall>k < attempts - i.
           \<exists>e. signin_reply (snd (server w (calls w + k) (SignIn email password))) = Inl e"
  shows "fst (attempt_email_signin_from i email password attempts w) = Inr JNull
       \<and> calls (snd (attempt_email_signin_from i email password attempts w))
           = calls w + (attempts - i)
       \<and> trace (snd (attempt_email_signin_from i email password attempts w))
           = trace w @ retry_trace (SignIn email password) (attempts - i - 1)
               @ [Http (SignIn email password)]"
  using assms
proof (induction i email password attempts w rule: attempt_email_signin_from.induct)
  case (1 i email password attempts w)
  let ?rq = "SignIn email password"
  obtain reply w1 where h: "http_call ?rq w = (reply, w1)"
    by (cases "http_call ?rq w")
  then have f: "trace w1 = trace w @ [Http ?rq]" "calls w1 = Suc (calls w)"
    "server w1 = server w" "reply = snd (server w (calls w) ?rq)"
    using http_call_fields [of ?rq w] by simp_all
  note unfold = attempt_email_signin_from.simps [of i email password attempts w]
  from "1.prems" have "\<exists>e. signin_reply (snd (server w (calls w + 0) ?rq)) = Inl e"
    by (metis zero_less_diff)
  then obtain e where Inl: "signin_reply reply = Inl e" using f(4) by auto
  let ?w2 = "if i < attempts - 1 then asyncio_sleep 3 w1 else w1"
  have step: "attempt_email_signin_from i email password attempts w
      = attempt_email_signin_from (Suc i) email password attempts ?w2"
    using "1.prems"(1) h Inl by (simp add: unfold)
  show ?case
  proof (cases "Suc i < attempts")
    case True
    then have w2: "?w2 = asyncio_sleep 3 w1" by simp
    have rest: "\<forall>k < attempts - Suc i.
        \<exists>e. signin_reply (snd (server ?w2 (calls ?w2 + k) ?rq)) = Inl e"
    proof (intro allI impI)
      fix k assume "k < attempts - Suc i"
      then have "Suc k < attempts - i" by simp
      with "1.prems"(2) have "\<exists>e. signin_reply (snd (server w (calls w + Suc k) ?rq)) = Inl e"
        by blast
      then show "\<exists>e. signin_reply (snd (server ?w2 (calls ?w2 + k) ?rq)) = Inl e"
        by (simp add: w2 f)
    qed
    have n: "attempts - i - 1 = Suc (attempts - Suc i - 1)" using True by simp
    from "1.IH" [OF "1.prems"(1) h [symmetric] Inl True rest, unfolded w2]
    show ?thesis unfolding step w2 n using True by (simp add: f retry_trace_def)
  next
    case False
    then have w2: "?w2 = w1" using "1.prems"(1) by auto
    have "attempt_email_signin_from (Suc i) email password attempts w1 = (Inr JNull, w1)"
      using False by (simp add: attempt_email_signin_from_done)
    moreover have "attempts - i = 1" using False "1.prems"(1) by simp
    ultimately show ?thesis unfolding step w2 by (simp add: f retry_trace_def)
  qed
qed

text \<open>
  C6. Each of the three network operations returns a value and never an exception,
  makes at most five HTTP calls, and leaves in the trace nothing but its calls with
  three seconds of sleep after each failed one that is followed by another (the two GET
  operations also sleep after the fifth failure). When all five attempts fail, five
  calls were made and the result is \<open>None\<close> for the sign-in and the empty dict for the
  status fetch and the check-in. For the sign-in an answer that is not a dict counts as
  a failure.
\<close>

theorem network_operations_retry:
  "(\<exists>v. fst (attempt_email_signin email password 5 w) = Inr v) \<and>
   (\<exists>v. fst (request_user_info token w) = Inr v) \<and>
   (\<exists>v. fst (perform_checkin token user_id w) = Inr v) \<and>
   calls (snd (attempt_email_signin email password 5 w)) \<le> calls w + 5 \<and>
   calls (snd (request_user_info token w)) \<le> calls w + 5 \<and>
   calls (snd (perform_checkin token user_id w)) \<le> calls w + 5 \<and>
   (\<exists>f < 5. trace (snd (attempt_email_signin email password 5 w))
      = trace w @ retry_trace (SignIn email password) f @ [Http (SignIn email password)]) \<and>
   ((\<exists>f < 5. trace (snd (request_user_info token w))
      = trace w @ retry_trace (GetUser token) f @ [Http (GetUser token)])
    \<or> trace (snd (request_user_info token w)) = trace w @ retry_trace (GetUser token) 5) \<and>
   ((\<exists>f < 5. trace (snd (perform_checkin token user_id w))
      = trace w @ retry_trace (Earn token user_id) f @ [Http (Earn token user_id)])
    \<or> trace (snd (perform_checkin token user_id w))
      = trace w @ retry_trace (Earn token user_id) 5) \<and>
   ((\<forall>k < 5. \<exists>e. signin_reply (snd (server w (calls w + k) (SignIn email password))) = Inl e)
      \<longrightarrow> fst (attempt_email_signin email password 5 w) = Inr JNull
        \<and> calls (snd (attempt_email_signin email password 5 w)) = calls w + 5
        \<and> trace (snd (attempt_email_signin email password 5 w))
          = trace w @ retry_trace (SignIn email password) 4 @ [Http (SignIn email password)]) \<and>
   ((\<forall>k < 5. \<exists>e. snd (server w (calls w + k) (GetUser token)) = Inl e)
      \<longrightarrow> fst (request_user_info token w) = Inr (JObj [])
        \<and> calls (snd (request_user_info token w)) = calls w + 5
        \<and> trace (snd (request_user_info token w)) = trace w @ retry_trace (GetUser token) 5) \<and>
   ((\<forall>k < 5. \<exists>e. snd (server w (calls w + k) (Earn token user_id)) = Inl e)
      \<longrightarrow> fst (perform_checkin token user_id w) = Inr (JObj [])
        \<and> calls (snd (perform_checkin token user_id w)) = calls w + 5
        \<and> trace (snd (perform_checkin token user_id w))
          = trace w @ retry_trace (Earn token user_id) 5)"
proof -
  have five: "(0::nat) < 5" by simp
  have s1: "\<exists>v. fst (attempt_email_signin email password 5 w) = Inr v"
    unfolding attempt_email_signin_def by (rule attempt_email_signin_from_returns)
  have s2: "\<exists>f < 5. trace (snd (attempt_email_signin email password 5 w))
      = trace w @ retry_trace (SignIn email password) f @ [Http (SignIn email password)]
      \<and> calls (snd (attempt_email_signin email password 5 w)) = calls w + Suc f"
    unfolding attempt_email_signin_def
    using attempt_email_signin_from_trace [OF five, of email password w] by simp
  then have s3: "calls (snd (attempt_email_signin email password 5 w)) \<le> calls w + 5"
    by auto
  have s4: "(\<forall>k < 5. \<exists>e. signin_reply (snd (server w (calls w + k) (SignIn email password))) = Inl e)
      \<longrightarrow> fst (attempt_email_signin email password 5 w) = Inr JNull
        \<and> calls (snd (attempt_email_signin email password 5 w)) = calls w + 5
        \<and> trace (snd (attempt_email_signin email password 5 w))
          = trace w @ retry_trace (SignIn email password) 4 @ [Http (SignIn email password)]"
    unfolding attempt_email_signin_def
    using attempt_email_signin_from_exhausted [OF five, of w email password] by simp
  have g1: "\<exists>v. fst (get_json_retrying rq 5 w) = Inr v" for rq
    by (rule get_json_retrying_returns)
  have g2: "calls (snd (get_json_retrying rq 5 w)) \<le> calls w + 5" for rq
    by (rule get_json_retrying_calls)
  have g3: "(\<exists>f < 5. trace (snd (get_json_retrying rq 5 w)) = trace w @ retry_trace rq f @ [Http rq])
      \<or> trace (snd (get_json_retrying rq 5 w)) = trace w @ retry_trace rq 5" for rq
    using get_json_retrying_trace [of 5 rq w] by blast
  have g4: "(\<forall>k < 5. \<exists>e. snd (server w (calls w + k) rq) = Inl e)
      \<longrightarrow> fst (get_json_retrying rq 5 w) = Inr (JObj [])
        \<and> calls (snd (get_json_retrying rq 5 w)) = calls w + 5
        \<and> trace (snd (get_json_retrying rq 5 w)) = trace w @ retry_trace rq 5" for rq
    using get_json_retrying_exhausted [of 5 w rq] by blast
  from s2 have s2': "\<exists>f < 5. trace (snd (attempt_email_signin email password 5 w))
      = trace w @ retry_trace (SignIn email password) f @ [Http (SignIn email password)]"
    by blast
  show ?thesis
    unfolding request_user_info_def perform_checkin_def
    using s1 s2' s3 s4 g1 g2 g3 g4 by blast
qed

theorem network_operations_retry_witness:
  "calls (demo_world server_down []) = 0 \<and>
   map (\<lambda>k. signin_reply (snd (server (demo_world server_down []) k (SignIn ''a@b.co'' ''pw''))))
     [0, 1, 2, 3, 4] = replicate 5 (Inl ClientError) \<and>
   map (\<lambda>k. snd (server (demo_world server_down []) k (GetUser (JStr ''t''))))
     [0, 1, 2, 3, 4] = replicate 5 (Inl ClientError) \<and>
   map (\<lambda>k. snd (server (demo_world server_down []) k (Earn (JStr ''t'') (JStr ''7''))))
     [0, 1, 2, 3, 4] = replicate 5 (Inl ClientError) \<and>
   fst (attempt_email_signin ''a@b.co'' ''pw'' 5 (demo_world server_down [])) = Inr JNull \<and>
   fst (request_user_info (JStr ''t'') (demo_world server_down [])) = Inr (JObj []) \<and>
   fst (perform_checkin (JStr ''t'') (JStr ''7'') (demo_world server_down [])) = Inr (JObj []) \<and>
   calls (snd (request_user_info (JStr ''t'') (demo_world server_down []))) = 5 \<and>
   trace (snd (attempt_email_signin ''a@b.co'' ''pw'' 5 (demo_world server_down [])))
     = [Http (SignIn ''a@b.co'' ''pw''), Sleep 3, Http (SignIn ''a@b.co'' ''pw''), Sleep 3,
        Http (SignIn ''a@b.co'' ''pw''), Sleep 3, Http (SignIn ''a@b.co'' ''pw''), Sleep 3,
        Http (SignIn ''a@b.co'' ''pw'')]"
proof -
  have down: "server (demo_world server_down []) n rq = (250000, Inl ClientError)" for n rq
    by (simp add: demo_world_def server_down_def)
  have start: "trace (demo_world server_down []) = []" "calls (demo_world server_down []) = 0"
    by (simp_all add: demo_world_def)
  have four: "retry_trace rq 4 = [Http rq, Sleep 3, Http rq, Sleep 3, Http rq, Sleep 3,
      Http rq, Sleep 3]" for rq
    by (simp add: retry_trace_def numeral_eq_Suc)
  have five: "replicate 5 x = [x, x, x, x, x]" for x :: "py_error + json"
    by (simp add: numeral_eq_Suc)
  show ?thesis
    using network_operations_retry [of "''a@b.co''" "''pw''" "demo_world server_down []"
        "JStr ''t''" "JStr ''7''"]
    by (simp add: down start four five)
qed

section \<open>Properties of the main loop\<close>

lemma split_once_no_sep: "sep \<notin> set s \<Longrightarrow> split_once sep s = [s]"
  by (simp add: split_once_def)

text \<open>
  C7. A line that contains \<open>@\<close> and no \<open>:\<close> is logged as having the wrong format and
  nothing else happens: no exception, and the lines after it are processed as they
  would be otherwise, from a world that differs by that log entry only.
\<close>

theorem malformed_credential_line:
  assumes "CHR ''@'' \<in> set line" and "CHR '':'' \<notin> set line"
  shows "process_line lib line w = (Inr (), styled_log (InvalidFormat line) w) \<and>
         for_lines lib (line # rest) w = for_lines lib rest (styled_log (InvalidFormat line) w)"
proof -
  have "process_line lib line w = (Inr (), styled_log (InvalidFormat line) w)"
    using assms by (simp add: process_line_def split_once_no_sep)
  then show ?thesis by simp
qed

theorem malformed_credential_line_witness:
  "CHR ''@'' \<in> set ''user@mail.ru'' \<and> CHR '':'' \<notin> set ''user@mail.ru'' \<and>
   process_line demo_lib ''user@mail.ru'' (demo_world server_down [])
     = (Inr (), styled_log (InvalidFormat ''user@mail.ru'') (demo_world server_down [])) \<and>
   for_lines demo_lib [''user@mail.ru''] (demo_world server_down [])
     = (Inr (), styled_log (InvalidFormat ''user@mail.ru'') (demo_world server_down []))"
proof -
  have h: "CHR ''@'' \<in> set ''user@mail.ru''" "CHR '':'' \<notin> set ''user@mail.ru''" by simp_all
  from malformed_credential_line [OF h, of demo_lib "demo_world server_down []" "[]"] h
  show ?thesis by simp
qed

text \<open>
  C9. A token line for which \<open>extract_jwt_data\<close> returns a triple with a falsy member
  (an absent key reads as \<open>None\<close>; \<open>0\<close> and the empty string are falsy as well) is
  skipped without a trace: the world is unchanged, so nothing is logged and no request
  is made.
\<close>

theorem token_with_falsy_claim_skipped:
  assumes "CHR ''@'' \<notin> set line"
    and "extract_jwt_data lib line = Inr (user_n, user_s, user_e)"
    and "\<not> truthy user_n \<or> \<not> truthy user_s \<or> \<not> truthy user_e"
  shows "process_line lib line w = (Inr (), w)"
  using assms by (auto simp: process_line_def)

theorem token_with_falsy_claim_skipped_witness:
  "CHR ''@'' \<notin> set ''h.eyJlbWFpbCI6ImFAYi5jbyIsInN1YiI6IjciLCJleHAiOjB9.s'' \<and>
   extract_jwt_data demo_lib ''h.eyJlbWFpbCI6ImFAYi5jbyIsInN1YiI6IjciLCJleHAiOjB9.s''
     = Inr (JStr ''a@b.co'', JStr ''7'', JInt 0) \<and>
   \<not> truthy (JInt 0) \<and>
   process_line demo_lib ''h.eyJlbWFpbCI6ImFAYi5jbyIsInN1YiI6IjciLCJleHAiOjB9.s''
     (demo_world server_down []) = (Inr (), demo_world server_down [])"
proof -
  let ?tok = "''h.eyJlbWFpbCI6ImFAYi5jbyIsInN1YiI6IjciLCJleHAiOjB9.s''"
  have a: "CHR ''@'' \<notin> set ?tok" by simp
  have b: "extract_jwt_data demo_lib ?tok = Inr (JStr ''a@b.co'', JStr ''7'', JInt 0)"
    using demo_extracts(5) by (simp only: demo_tokens)
  have c: "\<not> truthy (JStr ''a@b.co'') \<or> \<not> truthy (JStr ''7'') \<or> \<not> truthy (JInt 0)" by simp
  from token_with_falsy_claim_skipped [OF a b c, of "demo_world server_down []"] a b
  show ?thesis by simp
qed

end
